theory Spec2Isabelle
  imports Main
begin

section \<open>Data model of VideoStream.cpp\<close>

text \<open>
  An \<open>AVPacket\<close> is a heap object reached through an \<open>AVPacketRef\<close>. The model keeps
  the identity of the object (\<open>pkt_ref\<close>) beside the two fields the stream mutates:
  \<open>packet->data\<close> (as a byte offset) and \<open>packet->size\<close>.
\<close>

record AVPacket =
  pkt_ref :: nat
  pkt_data :: int
  pkt_size :: int

text \<open>
  The decoded picture held in \<open>m_rawVideoFrame\<close>: what
  \<open>av_frame_get_best_effort_timestamp\<close> reads, and the pixel content as an opaque value.
\<close>

record AVFrame =
  best_effort_timestamp :: int
  frame_data :: nat

text \<open>The two fields of \<open>m_stream\<close> that \<open>decodePacket\<close> reads.\<close>

record AVStream =
  start_time :: int
  time_base :: "int \<times> int"

definition AV_NOPTS_VALUE :: int where
  "AV_NOPTS_VALUE = - (2 ^ 63)"

text \<open>
  Modelled from the spec: the shared clock (\<open>Timer\<close>, declared outside this file). Its
  states are Stopped, Playing and Paused and \<open>getOffset\<close> returns the current playback
  position; \<open>sf::Time\<close> values are counted in microseconds.
\<close>

datatype Status = Stopped | Playing | Paused

record Timer =
  status :: Status
  offset :: int

text \<open>
  Every call the stream makes to a collaborator is recorded, oldest first: the packet
  source (\<open>Pop\<close>, \<open>Prepend\<close>), the allocator (\<open>Free\<close> for the pair
  \<open>av_free_packet\<close>, \<open>av_free\<close>), the codec (\<open>Decode\<close> with the packet as submitted,
  the returned length and the got-picture flag; \<open>FlushBuffers\<close>), the rescaler and the
  texture.
\<close>

datatype event =
    Pop "AVPacket option"
  | Decode AVPacket int int
  | Rescale
  | TextureUpdate
  | Prepend AVPacket
  | Free AVPacket
  | FlushBuffers

text \<open>
  The members of \<open>VideoStream\<close> (and of its base \<open>Stream\<close>) that the functions below
  read or write. \<open>m_packets\<close> is the packet source behind \<open>popEncodedData\<close> and
  \<open>prependEncodedData\<close>; \<open>'c\<close> is the codec context's internal state.
\<close>

record 'c VideoStream =
  m_packets :: "AVPacket list"
  m_codecCtx :: 'c
  m_stream :: AVStream
  m_timer :: Timer
  m_rawVideoFrame :: AVFrame
  m_rgbaVideoBuffer :: nat
  m_texture :: nat
  m_lastDecodedTimestamp :: int
  calls :: "event list"

text \<open>
  The library functions the file calls, taken as parameters:
  \<^item> \<open>avcodec_decode_video2 ctx packet\<close> returns the decoded length, the got-picture
    flag, the content of the output frame and the new codec state (the packet is
    \<open>const\<close> for the codec);
  \<^item> \<open>avcodec_flush_buffers\<close> maps the codec state to the flushed one;
  \<^item> \<open>sws_scale\<close> maps a frame to the RGBA pixels written to the video buffer;
  \<^item> \<open>q2d_product x tb\<close> is the \<open>double\<close> product \<open>x * av_q2d(tb)\<close> converted to
    \<open>sf::Int64\<close>.
\<close>

record 'c library =
  avcodec_decode_video2 :: "'c \<Rightarrow> AVPacket \<Rightarrow> int \<times> int \<times> AVFrame \<times> 'c"
  avcodec_flush_buffers :: "'c \<Rightarrow> 'c"
  sws_scale :: "AVFrame \<Rightarrow> nat"
  q2d_product :: "int \<Rightarrow> int \<times> int \<Rightarrow> int"

section \<open>The packet source\<close>

text \<open>
  Modelled from the spec: \<open>Stream::popEncodedData\<close> and \<open>Stream::prependEncodedData\<close>
  are members of the base class, which is not part of this file. Pop is destructive
  (it removes the head and hands it over, or returns nothing when the source is
  empty); prepend pushes to the head, so that the packet is the next one popped.
\<close>

definition popEncodedData :: "'c VideoStream \<Rightarrow> AVPacket option \<times> 'c VideoStream" where
  "popEncodedData s =
     (case m_packets s of
        [] \<Rightarrow> (None, s\<lparr>calls := calls s @ [Pop None]\<rparr>)
      | p # ps \<Rightarrow> (Some p, s\<lparr>m_packets := ps, calls := calls s @ [Pop (Some p)]\<rparr>))"

definition prependEncodedData :: "AVPacket \<Rightarrow> 'c VideoStream \<Rightarrow> 'c VideoStream" where
  "prependEncodedData packet s =
     s\<lparr>m_packets := packet # m_packets s, calls := calls s @ [Prepend packet]\<rparr>"

text \<open>\<open>av_free_packet(packet); av_free(packet);\<close>\<close>

definition av_free_packet :: "AVPacket \<Rightarrow> 'c VideoStream \<Rightarrow> 'c VideoStream" where
  "av_free_packet packet s = s\<lparr>calls := calls s @ [Free packet]\<rparr>"

section \<open>The stream's functions\<close>

text \<open>
  \<open>sf::milliseconds\<close> takes an \<open>sf::Int32\<close> and returns an \<open>sf::Time\<close> of that many
  thousands of microseconds. \<open>decodePacket\<close> passes it an \<open>sf::Int64\<close>, which the
  conversion narrows to the 32-bit two's complement value with the same low bits.
\<close>

definition narrow_Int32 :: "int \<Rightarrow> int" where
  "narrow_Int32 x = (x + 2 ^ 31) mod 2 ^ 32 - 2 ^ 31"

definition milliseconds :: "int \<Rightarrow> int" where
  "milliseconds ms = narrow_Int32 ms * 1000"

text \<open>\<open>VideoStream::getSynchronizationGap\<close>\<close>

definition getSynchronizationGap :: "'c VideoStream \<Rightarrow> int" where
  "getSynchronizationGap s = m_lastDecodedTimestamp s - offset (m_timer s)"

text \<open>\<open>packet->data += decodedLength; packet->size -= decodedLength;\<close>\<close>

definition advance_cursor :: "AVPacket \<Rightarrow> int \<Rightarrow> AVPacket" where
  "advance_cursor packet decodedLength =
     packet\<lparr>pkt_data := pkt_data packet + decodedLength,
            pkt_size := pkt_size packet - decodedLength\<rparr>"

text \<open>
  \<open>VideoStream::decodePacket\<close>. The result is the returned flag, the two output
  parameters \<open>gotFrame\<close> and \<open>needsMoreDecoding\<close>, the packet after the call and the
  stream after the call.

  The C \<open>int\<close>s (\<open>decodedLength\<close>, \<open>gotPicture\<close>, \<open>packet->size\<close>) are integers here:
  the only arithmetic on them is \<open>size -= decodedLength\<close> under
  \<open>0 < decodedLength < size\<close>, which cannot leave the range of \<open>int\<close>. The 64-bit
  product \<open>1000 * (timestamp - startTime)\<close> and the \<open>sf::Time\<close> values are taken without
  wrap-around (signed overflow is undefined in C++); the floating-point part of the
  timestamp is the parameter \<open>q2d_product\<close>.
\<close>

definition decodePacket ::
  "'c library \<Rightarrow> AVPacket \<Rightarrow> 'c VideoStream \<Rightarrow> bool \<times> bool \<times> bool \<times> AVPacket \<times> 'c VideoStream" where
  "decodePacket lib packet s =
     (case avcodec_decode_video2 lib (m_codecCtx s) packet of
        (decodedLength, gotPicture, frame, ctx) \<Rightarrow>
          let s1 = s\<lparr>m_codecCtx := ctx, m_rawVideoFrame := frame,
                     calls := calls s @ [Decode packet decodedLength gotPicture]\<rparr>;
              gotFrame = (gotPicture \<noteq> 0)
          in if decodedLength > 0 then
               let needsMoreDecoding = (decodedLength < pkt_size packet);
                   packet' = (if needsMoreDecoding then advance_cursor packet decodedLength
                              else packet);
                   s2 = (if gotFrame then
                           let timestamp = best_effort_timestamp frame;
                               startTime = (if start_time (m_stream s1) \<noteq> AV_NOPTS_VALUE
                                            then start_time (m_stream s1) else 0);
                               ms = q2d_product lib (1000 * (timestamp - startTime))
                                      (time_base (m_stream s1))
                           in s1\<lparr>m_lastDecodedTimestamp := milliseconds ms\<rparr>
                         else s1)
               in (True, gotFrame, needsMoreDecoding, packet', s2)
             else (False, gotFrame, False, packet, s1))"

text \<open>\<open>VideoStream::rescale\<close> followed by \<open>texture.update(m_rgbaVideoBuffer[0])\<close>.\<close>

definition rescale :: "'c library \<Rightarrow> 'c VideoStream \<Rightarrow> 'c VideoStream" where
  "rescale lib s =
     s\<lparr>m_rgbaVideoBuffer := sws_scale lib (m_rawVideoFrame s), calls := calls s @ [Rescale]\<rparr>"

definition texture_update :: "'c VideoStream \<Rightarrow> 'c VideoStream" where
  "texture_update s = s\<lparr>m_texture := m_rgbaVideoBuffer s, calls := calls s @ [TextureUpdate]\<rparr>"

text \<open>
  The body of the \<open>while\<close> loop of \<open>onGetData\<close>, entered with a packet in hand (so that
  \<open>CHECK(packet != NULL, ...)\<close> passes, as does \<open>CHECK(frame, ...)\<close> in \<open>rescale\<close> for the
  frame allocated by the constructor). It returns the loop variables \<open>packet\<close>,
  \<open>gotFrame\<close> and \<open>goOn\<close> and the stream; when no further packet is popped, \<open>packet\<close>
  still points to the packet just disposed of.
\<close>

definition onGetData_body ::
  "'c library \<Rightarrow> AVPacket \<Rightarrow> 'c VideoStream \<Rightarrow> AVPacket option \<times> bool \<times> bool \<times> 'c VideoStream" where
  "onGetData_body lib packet s =
     (case decodePacket lib packet s of
        (goOn, gotFrame, needsMoreDecoding, packet', s1) \<Rightarrow>
          let s2 = (if gotFrame then texture_update (rescale lib s1) else s1);
              s3 = (if needsMoreDecoding then prependEncodedData packet' s2
                    else av_free_packet packet' s2)
          in if \<not> gotFrame \<and> goOn
             then (case popEncodedData s3 of (next, s4) \<Rightarrow> (next, gotFrame, goOn, s4))
             else (Some packet', gotFrame, goOn, s3))"

text \<open>
  What the loop still has to go through: one unit for each packet in hand or in the
  source, plus the bytes they hold.
\<close>

definition pkt_weight :: "AVPacket \<Rightarrow> nat" where
  "pkt_weight p = Suc (nat (pkt_size p))"

definition loop_measure :: "AVPacket option \<Rightarrow> bool \<Rightarrow> bool \<Rightarrow> 'c VideoStream \<Rightarrow> nat" where
  "loop_measure packet gotFrame goOn s =
     (case packet of
        None \<Rightarrow> 0
      | Some p \<Rightarrow>
          if \<not> gotFrame \<and> goOn then Suc (pkt_weight p + sum_list (map pkt_weight (m_packets s)))
          else 0)"

text \<open>\<open>while (!gotFrame && packet && goOn) { ... } return goOn;\<close>\<close>

function onGetData_loop ::
  "'c library \<Rightarrow> AVPacket option \<Rightarrow> bool \<Rightarrow> bool \<Rightarrow> 'c VideoStream \<Rightarrow> bool \<times> 'c VideoStream" where
  "onGetData_loop lib packet gotFrame goOn s =
     (case packet of
        None \<Rightarrow> (goOn, s)
      | Some p \<Rightarrow>
          if \<not> gotFrame \<and> goOn then
            (case onGetData_body lib p s of
               (packet', gotFrame', goOn', s') \<Rightarrow> onGetData_loop lib packet' gotFrame' goOn' s')
          else (goOn, s))"
  by pat_completeness auto
termination
  by (relation "measure (\<lambda>(lib, packet, gotFrame, goOn, s). loop_measure packet gotFrame goOn s)")
    (auto simp: onGetData_body_def decodePacket_def loop_measure_def pkt_weight_def
      popEncodedData_def prependEncodedData_def av_free_packet_def rescale_def
      texture_update_def advance_cursor_def Let_def
      split: prod.splits if_splits option.splits list.splits)

declare onGetData_loop.simps [simp del]

text \<open>\<open>VideoStream::onGetData\<close>: the returned flag and the stream after the call.\<close>

definition onGetData :: "'c library \<Rightarrow> 'c VideoStream \<Rightarrow> bool \<times> 'c VideoStream" where
  "onGetData lib s =
     (case popEncodedData s of (packet, s1) \<Rightarrow> onGetData_loop lib packet False True s1)"

text \<open>\<open>VideoStream::updateTexture\<close>\<close>

definition updateTexture :: "'c library \<Rightarrow> 'c VideoStream \<Rightarrow> 'c VideoStream" where
  "updateTexture lib s =
     (if getSynchronizationGap s < 0 then snd (onGetData lib s) else s)"

text \<open>\<open>VideoStream::preload\<close>\<close>

definition preload :: "'c library \<Rightarrow> 'c VideoStream \<Rightarrow> 'c VideoStream" where
  "preload lib s = snd (onGetData lib s)"

text \<open>
  The lifecycle hooks. \<open>willPlay\<close> receives the timer only; the three \<open>did\<close> hooks
  receive the timer and the previous status.
\<close>

definition willPlay :: "'c library \<Rightarrow> Timer \<Rightarrow> 'c VideoStream \<Rightarrow> 'c VideoStream" where
  "willPlay lib timer s = preload lib s"

definition didPlay :: "Timer \<Rightarrow> Status \<Rightarrow> 'c VideoStream \<Rightarrow> 'c VideoStream" where
  "didPlay timer previousStatus s = s"

definition didPause :: "Timer \<Rightarrow> Status \<Rightarrow> 'c VideoStream \<Rightarrow> 'c VideoStream" where
  "didPause timer previousStatus s = s"

definition didStop :: "'c library \<Rightarrow> Timer \<Rightarrow> Status \<Rightarrow> 'c VideoStream \<Rightarrow> 'c VideoStream" where
  "didStop lib timer previousStatus s =
     s\<lparr>m_codecCtx := avcodec_flush_buffers lib (m_codecCtx s),
       calls := calls s @ [FlushBuffers]\<rparr>"

section \<open>Reading the record of calls\<close>

text \<open>The calls made between two states of the stream.\<close>

definition new_calls :: "'c VideoStream \<Rightarrow> 'c VideoStream \<Rightarrow> event list" where
  "new_calls s s' = drop (length (calls s)) (calls s')"

text \<open>The calls that move the ownership of a packet.\<close>

fun is_ownership :: "event \<Rightarrow> bool" where
  "is_ownership (Pop p) = True"
| "is_ownership (Prepend p) = True"
| "is_ownership (Free p) = True"
| "is_ownership e = False"

text \<open>
  A sequence of ownership calls in which every pop that returned a packet is followed,
  before anything else, by one disposal of that same packet object, a free or a
  prepend, and no disposal happens otherwise.
\<close>

fun disposed_once :: "event list \<Rightarrow> bool" where
  "disposed_once [] = True"
| "disposed_once (Pop None # es) = disposed_once es"
| "disposed_once (Pop (Some p) # Free q # es) = (pkt_ref q = pkt_ref p \<and> disposed_once es)"
| "disposed_once (Pop (Some p) # Prepend q # es) = (pkt_ref q = pkt_ref p \<and> disposed_once es)"
| "disposed_once es = False"

text \<open>The packet objects freed, and those popped, by a sequence of calls.\<close>

fun freed :: "event list \<Rightarrow> nat list" where
  "freed [] = []"
| "freed (Free p # es) = pkt_ref p # freed es"
| "freed (e # es) = freed es"

fun popped :: "event list \<Rightarrow> nat list" where
  "popped [] = []"
| "popped (Pop (Some p) # es) = pkt_ref p # popped es"
| "popped (e # es) = popped es"

text \<open>The packet objects prepended to the source by a sequence of calls.\<close>

fun requeued :: "event list \<Rightarrow> nat list" where
  "requeued [] = []"
| "requeued (Prepend p # es) = pkt_ref p # requeued es"
| "requeued (e # es) = requeued es"

text \<open>The length returned by the last decode call of a sequence, if there is one.\<close>

fun last_decode :: "event list \<Rightarrow> int option" where
  "last_decode [] = None"
| "last_decode (e # es) =
     (case last_decode es of
        Some d \<Rightarrow> Some d
      | None \<Rightarrow> (case e of Decode p d g \<Rightarrow> Some d | _ \<Rightarrow> None))"

text \<open>Whether some decode call of a sequence succeeded and produced a picture.\<close>

fun decoded_picture :: "event list \<Rightarrow> bool" where
  "decoded_picture [] = False"
| "decoded_picture (Decode p d g # es) = ((0 < d \<and> g \<noteq> 0) \<or> decoded_picture es)"
| "decoded_picture (e # es) = decoded_picture es"

text \<open>Whether some decode call of a sequence set its got-picture flag.\<close>

fun got_picture :: "event list \<Rightarrow> bool" where
  "got_picture [] = False"
| "got_picture (Decode p d g # es) = (g \<noteq> 0 \<or> got_picture es)"
| "got_picture (e # es) = got_picture es"

text \<open>The packet object the loop has in hand when its condition holds.\<close>

fun held :: "AVPacket option \<Rightarrow> bool \<Rightarrow> bool \<Rightarrow> nat list" where
  "held (Some p) False True = [pkt_ref p]"
| "held packet gotFrame goOn = []"

text \<open>Whether some decode call of a sequence returned a length that is not positive.\<close>

fun decode_failed :: "event list \<Rightarrow> bool" where
  "decode_failed [] = False"
| "decode_failed (Decode p d g # es) = (d \<le> 0 \<or> decode_failed es)"
| "decode_failed (e # es) = decode_failed es"

section \<open>Sample collaborators\<close>

text \<open>
  A codec that returns the same length and got-picture flag on every call, counts the
  calls in its state, stamps the pictures 40 time-base units apart and forgets the count
  when flushed; packets and streams to run it on. The time base is 1/1000, the start
  time unknown, and \<open>q2d_product\<close> is the exact quotient rounded down.
\<close>

definition fixed_codec :: "int \<Rightarrow> int \<Rightarrow> nat library" where
  "fixed_codec d g =
     \<lparr>avcodec_decode_video2 =
        (\<lambda>c p. (d, g, \<lparr>best_effort_timestamp = 40 * int c, frame_data = Suc c\<rparr>, Suc c)),
      avcodec_flush_buffers = (\<lambda>c. 0),
      sws_scale = frame_data,
      q2d_product = (\<lambda>x tb. x * fst tb div snd tb)\<rparr>"

definition packet_of :: "nat \<Rightarrow> int \<Rightarrow> AVPacket" where
  "packet_of r n = \<lparr>pkt_ref = r, pkt_data = 0, pkt_size = n\<rparr>"

definition stream_of :: "AVPacket list \<Rightarrow> Status \<Rightarrow> int \<Rightarrow> nat VideoStream" where
  "stream_of ps st off =
     \<lparr>m_packets = ps, m_codecCtx = 0,
      m_stream = \<lparr>start_time = AV_NOPTS_VALUE, time_base = (1, 1000)\<rparr>,
      m_timer = \<lparr>status = st, offset = off\<rparr>,
      m_rawVideoFrame = \<lparr>best_effort_timestamp = 0, frame_data = 0\<rparr>,
      m_rgbaVideoBuffer = 0, m_texture = 0, m_lastDecodedTimestamp = 0, calls = []\<rparr>"






lemmas run_defs = narrow_Int32_def onGetData_def onGetData_loop.simps onGetData_body_def decodePacket_def
  popEncodedData_def prependEncodedData_def av_free_packet_def rescale_def texture_update_def
  advance_cursor_def fixed_codec_def packet_of_def stream_of_def new_calls_def milliseconds_def
  preload_def updateTexture_def willPlay_def getSynchronizationGap_def Let_def

section \<open>One iteration and the loop\<close>

lemmas body_defs = onGetData_body_def decodePacket_def popEncodedData_def prependEncodedData_def
  av_free_packet_def rescale_def texture_update_def Let_def

text \<open>One iteration, read off the decode call's result.\<close>

lemma body_result:
  assumes "avcodec_decode_video2 lib (m_codecCtx s) p = (d, g, f, c)"
    and "onGetData_body lib p s = (packet', gotFrame', goOn', s')"
  shows "calls s' = calls s @ Decode p d g # (if g \<noteq> 0 then [Rescale, TextureUpdate] else [])
            @ [if 0 < d \<and> d < pkt_size p then Prepend (advance_cursor p d) else Free p]
            @ (if g = 0 \<and> 0 < d then [Pop packet'] else [])"
    and "gotFrame' = (g \<noteq> 0)" and "goOn' = (0 < d)"
    and "\<not> (0 < d \<and> g \<noteq> 0) \<Longrightarrow> m_lastDecodedTimestamp s' = m_lastDecodedTimestamp s"
    and "g = 0 \<Longrightarrow> m_texture s' = m_texture s"
    and "g = 0 \<Longrightarrow> 0 < d \<Longrightarrow> packet' = None \<Longrightarrow> m_packets s' = []"
  using assms
  by (auto simp: body_defs split: prod.splits if_splits list.splits)

lemma loop_stop:
  "gotFrame \<or> \<not> goOn \<or> packet = None \<Longrightarrow> onGetData_loop lib packet gotFrame goOn s = (goOn, s)"
  by (subst onGetData_loop.simps) (auto split: option.splits)

lemma loop_step:
  "onGetData_body lib p s = (packet', gotFrame', goOn', s1) \<Longrightarrow>
   onGetData_loop lib (Some p) False True s = onGetData_loop lib packet' gotFrame' goOn' s1"
  by (subst onGetData_loop.simps) simp

text \<open>An invariant rule for the loop: the exit and one iteration.\<close>

lemma loop_rule [consumes 1, case_names stop step]:
  assumes run: "onGetData_loop lib packet gotFrame goOn s = (r, s')"
    and stop: "\<And>packet gotFrame goOn s.
        gotFrame \<or> \<not> goOn \<or> packet = None \<Longrightarrow> P packet gotFrame goOn s goOn s"
    and step: "\<And>lib p s packet' gotFrame' goOn' s1 r s'.
        onGetData_body lib p s = (packet', gotFrame', goOn', s1) \<Longrightarrow>
        onGetData_loop lib packet' gotFrame' goOn' s1 = (r, s') \<Longrightarrow>
        P packet' gotFrame' goOn' s1 r s' \<Longrightarrow> P (Some p) False True s r s'"
  shows "P packet gotFrame goOn s r s'"
  using run
proof (induction lib packet gotFrame goOn s arbitrary: r s' rule: onGetData_loop.induct)
  case (1 lib packet gotFrame goOn s)
  show ?case
  proof (cases "gotFrame \<or> \<not> goOn \<or> packet = None")
    case True
    with "1.prems" stop[OF True, of s] show ?thesis by (simp add: loop_stop)
  next
    case False
    then obtain p where p: "packet = Some p" and g: "\<not> gotFrame" "goOn" by auto
    obtain packet' gotFrame' goOn' s1
      where b: "onGetData_body lib p s = (packet', gotFrame', goOn', s1)"
      by (metis prod_cases4)
    from "1.prems" p g b have l: "onGetData_loop lib packet' gotFrame' goOn' s1 = (r, s')"
      by (simp add: loop_step)
    have "P packet' gotFrame' goOn' s1 r s'"
      using "1.IH"[OF p _ b[symmetric] refl refl] g l by blast
    from step[OF b l this] p g show ?thesis by simp
  qed
qed

lemma new_calls_eq: "calls s' = calls s @ es \<Longrightarrow> new_calls s s' = es"
  by (simp add: new_calls_def)

lemma new_calls_trans:
  "calls s1 = calls s @ a \<Longrightarrow> calls s' = calls s1 @ b \<Longrightarrow> new_calls s s' = a @ new_calls s1 s'"
  by (simp add: new_calls_def)

lemma freed_append: "freed (a @ b) = freed a @ freed b"
  by (induction a rule: freed.induct) auto

lemma decoded_picture_append: "decoded_picture (a @ b) = (decoded_picture a \<or> decoded_picture b)"
  by (induction a rule: decoded_picture.induct) auto

lemma got_picture_append: "got_picture (a @ b) = (got_picture a \<or> got_picture b)"
  by (induction a rule: got_picture.induct) auto

lemma last_decode_append:
  "last_decode (a @ b) = (case last_decode b of Some d \<Rightarrow> Some d | None \<Rightarrow> last_decode a)"
  by (induction a) (auto split: option.splits)

lemma loop_prefix:
  assumes "onGetData_loop lib packet gotFrame goOn s = (r, s')"
  shows "calls s' = calls s @ new_calls s s'"
  using assms
proof (induction rule: loop_rule)
  case (stop packet gotFrame goOn s)
  show ?case by (simp add: new_calls_def)
next
  case (step lib p s packet' gotFrame' goOn' s1 r s')
  obtain d g f c where dec: "avcodec_decode_video2 lib (m_codecCtx s) p = (d, g, f, c)"
    by (metis prod_cases4)
  from body_result(1)[OF dec step(1)] obtain es where es: "calls s1 = calls s @ es"
    by blast
  with step(3) have "calls s' = calls s @ (es @ new_calls s1 s')"
    by simp
  from this new_calls_eq[OF this] show ?case
    by simp
qed

lemma loop_pairing:
  assumes "onGetData_loop lib packet gotFrame goOn s = (r, s')"
  shows "if \<not> gotFrame \<and> goOn \<and> packet \<noteq> None
         then disposed_once (Pop packet # filter is_ownership (new_calls s s'))
         else new_calls s s' = []"
  using assms
proof (induction rule: loop_rule)
  case (stop packet gotFrame goOn s)
  then show ?case by (auto simp: new_calls_def)
next
  case (step lib p s packet' gotFrame' goOn' s1 r s')
  obtain d g f c where dec: "avcodec_decode_video2 lib (m_codecCtx s) p = (d, g, f, c)"
    by (metis prod_cases4)
  note b = body_result(1-3)[OF dec step(1)]
  note n = new_calls_trans[OF b(1) loop_prefix[OF step(2)]]
  show ?case
    using step(3) b(2,3) unfolding n
    by (cases packet') (auto simp: advance_cursor_def split: if_splits)
qed

lemma body_count:
  assumes "onGetData_body lib p s = (packet', gotFrame', goOn', s1)"
  shows "count_list (held packet' gotFrame' goOn' @ map pkt_ref (m_packets s1)) x
           + count_list (freed (new_calls s s1)) x
         = count_list (pkt_ref p # map pkt_ref (m_packets s)) x"
  using assms
  by (auto simp: body_defs new_calls_def advance_cursor_def
      split: prod.splits if_splits list.splits)

lemma loop_count:
  assumes "onGetData_loop lib packet gotFrame goOn s = (r, s')"
  shows "count_list (map pkt_ref (m_packets s')) x + count_list (freed (new_calls s s')) x
         = count_list (held packet gotFrame goOn @ map pkt_ref (m_packets s)) x"
  using assms
proof (induction rule: loop_rule)
  case (stop packet gotFrame goOn s)
  then show ?case by (cases packet; cases gotFrame; cases goOn) (auto simp: new_calls_def)
next
  case (step lib p s packet' gotFrame' goOn' s1 r s')
  obtain d g f c where dec: "avcodec_decode_video2 lib (m_codecCtx s) p = (d, g, f, c)"
    by (metis prod_cases4)
  note b = body_result(1)[OF dec step(1)]
  have n: "new_calls s s' = new_calls s s1 @ new_calls s1 s'"
    using new_calls_trans[OF b loop_prefix[OF step(2)]] new_calls_eq[OF b] by simp
  show ?case
    using step(3) body_count[OF step(1), of x] unfolding n
    by (simp add: freed_append)
qed

lemma loop_timestamp:
  assumes "onGetData_loop lib packet gotFrame goOn s = (r, s')"
  shows "\<not> decoded_picture (new_calls s s') \<longrightarrow> m_lastDecodedTimestamp s' = m_lastDecodedTimestamp s"
  using assms
proof (induction rule: loop_rule)
  case (stop packet gotFrame goOn s)
  then show ?case by simp
next
  case (step lib p s packet' gotFrame' goOn' s1 r s')
  obtain d g f c where dec: "avcodec_decode_video2 lib (m_codecCtx s) p = (d, g, f, c)"
    by (metis prod_cases4)
  note b = body_result[OF dec step(1)]
  note n = new_calls_trans[OF b(1) loop_prefix[OF step(2)]]
  show ?case
    using step(3) b(4) unfolding n
    by (auto simp: decoded_picture_append)
qed

lemma loop_texture:
  assumes "onGetData_loop lib packet gotFrame goOn s = (r, s')"
  shows "\<not> got_picture (new_calls s s') \<longrightarrow>
           m_texture s' = m_texture s \<and> TextureUpdate \<notin> set (new_calls s s')"
  using assms
proof (induction rule: loop_rule)
  case (stop packet gotFrame goOn s)
  then show ?case by (simp add: new_calls_def)
next
  case (step lib p s packet' gotFrame' goOn' s1 r s')
  obtain d g f c where dec: "avcodec_decode_video2 lib (m_codecCtx s) p = (d, g, f, c)"
    by (metis prod_cases4)
  note b = body_result[OF dec step(1)]
  note n = new_calls_trans[OF b(1) loop_prefix[OF step(2)]]
  show ?case
    using step(3) b(5) unfolding n
    by (auto simp: got_picture_append)
qed

lemma loop_return:
  assumes "onGetData_loop lib packet gotFrame goOn s = (r, s')"
  shows "r = (case last_decode (new_calls s s') of None \<Rightarrow> goOn | Some d \<Rightarrow> 0 < d)"
  using assms
proof (induction rule: loop_rule)
  case (stop packet gotFrame goOn s)
  then show ?case by (simp add: new_calls_def)
next
  case (step lib p s packet' gotFrame' goOn' s1 r s')
  obtain d g f c where dec: "avcodec_decode_video2 lib (m_codecCtx s) p = (d, g, f, c)"
    by (metis prod_cases4)
  note b = body_result[OF dec step(1)]
  note n = new_calls_trans[OF b(1) loop_prefix[OF step(2)]]
  show ?case
    using step(3) b(3) unfolding n
    by (auto simp: last_decode_append split: option.splits)
qed

lemma loop_exhausted:
  assumes "onGetData_loop lib packet gotFrame goOn s = (r, s')"
  shows "(packet = None \<longrightarrow> m_packets s = []) \<and> \<not> gotFrame \<and> r \<and> \<not> got_picture (new_calls s s')
           \<longrightarrow> m_packets s' = []"
  using assms
proof (induction rule: loop_rule)
  case (stop packet gotFrame goOn s)
  then show ?case by auto
next
  case (step lib p s packet' gotFrame' goOn' s1 r s')
  obtain d g f c where dec: "avcodec_decode_video2 lib (m_codecCtx s) p = (d, g, f, c)"
    by (metis prod_cases4)
  note b = body_result[OF dec step(1)]
  note n = new_calls_trans[OF b(1) loop_prefix[OF step(2)]]
  have r: "\<not> 0 < d \<Longrightarrow> \<not> r"
    using step(2) b(3) by (simp add: loop_stop)
  show ?case
    using step(3) b(2,3,6) r unfolding n
    by (auto simp: got_picture_append)
qed

section \<open>A whole call to onGetData\<close>

lemma onGetData_cases [case_names empty packet]:
  obtains (empty) "m_packets s = []"
      "onGetData lib s = (True, s\<lparr>calls := calls s @ [Pop None]\<rparr>)"
  | (packet) p ps where "m_packets s = p # ps"
      "onGetData lib s =
         onGetData_loop lib (Some p) False True (s\<lparr>m_packets := ps, calls := calls s @ [Pop (Some p)]\<rparr>)"
  by (cases "m_packets s") (auto simp: onGetData_def popEncodedData_def loop_stop)

lemma last_decode_ok: "\<not> decode_failed es \<Longrightarrow> (case last_decode es of None \<Rightarrow> True | Some d \<Rightarrow> 0 < d)"
  by (induction es rule: decode_failed.induct) (auto split: option.splits)

lemma got_picture_decoded: "decoded_picture es \<Longrightarrow> got_picture es"
  by (induction es rule: decoded_picture.induct) auto

text \<open>The calls of a whole call to onGetData: the first pop, then the loop's.\<close>

lemma onGetData_run:
  obtains packet s1 where
    "calls s1 = calls s @ [Pop packet]"
    "onGetData_loop lib packet False True s1 = onGetData lib s"
    "new_calls s (snd (onGetData lib s)) = Pop packet # new_calls s1 (snd (onGetData lib s))"
    "held packet False True @ map pkt_ref (m_packets s1) = map pkt_ref (m_packets s)"
    "packet = None \<longrightarrow> m_packets s1 = []"
    "m_lastDecodedTimestamp s1 = m_lastDecodedTimestamp s"
    "m_texture s1 = m_texture s"
proof (cases rule: onGetData_cases[where s=s and lib=lib])
  case empty
  let ?s1 = "s\<lparr>calls := calls s @ [Pop None]\<rparr>"
  have l: "onGetData_loop lib None False True ?s1 = onGetData lib s"
    using empty by (simp add: loop_stop)
  show ?thesis
  proof (rule that[of ?s1 None])
    show "new_calls s (snd (onGetData lib s)) = Pop None # new_calls ?s1 (snd (onGetData lib s))"
      using empty by (simp add: new_calls_def)
  qed (use empty l in auto)
next
  case (packet p ps)
  let ?s1 = "s\<lparr>m_packets := ps, calls := calls s @ [Pop (Some p)]\<rparr>"
  have l: "onGetData_loop lib (Some p) False True ?s1 = onGetData lib s"
    using packet by simp
  obtain r s' where rs: "onGetData lib s = (r, s')" by (cases "onGetData lib s")
  have c: "calls ?s1 = calls s @ [Pop (Some p)]" by simp
  show ?thesis
  proof (rule that[of ?s1 "Some p"])
    show "new_calls s (snd (onGetData lib s)) = Pop (Some p) # new_calls ?s1 (snd (onGetData lib s))"
      using new_calls_trans[OF c loop_prefix[OF l[unfolded rs]]] rs by simp
  qed (use packet l in auto)
qed

section \<open>Packet ownership\<close>

lemma popped_append: "popped (a @ b) = popped a @ popped b"
  by (induction a rule: popped.induct) auto

lemma body_popped:
  assumes "onGetData_body lib p s = (packet', gotFrame', goOn', s1)"
  shows "set (popped (new_calls s s1)) \<subseteq> set (held packet' gotFrame' goOn')"
    and "set (held packet' gotFrame' goOn' @ map pkt_ref (m_packets s1))
           \<subseteq> set (pkt_ref p # map pkt_ref (m_packets s))"
  using assms
  by (auto simp: body_defs new_calls_def advance_cursor_def
      split: prod.splits if_splits list.splits)

lemma loop_popped:
  assumes "onGetData_loop lib packet gotFrame goOn s = (r, s')"
  shows "set (popped (new_calls s s'))
           \<subseteq> set (held packet gotFrame goOn @ map pkt_ref (m_packets s))"
  using assms
proof (induction rule: loop_rule)
  case (stop packet gotFrame goOn s)
  then show ?case by (simp add: new_calls_def)
next
  case (step lib p s packet' gotFrame' goOn' s1 r s')
  obtain d g f c where dec: "avcodec_decode_video2 lib (m_codecCtx s) p = (d, g, f, c)"
    by (metis prod_cases4)
  note b = body_result(1)[OF dec step(1)]
  have n: "new_calls s s' = new_calls s s1 @ new_calls s1 s'"
    using new_calls_trans[OF b loop_prefix[OF step(2)]] new_calls_eq[OF b] by simp
  have "set (popped (new_calls s s1)) \<subseteq> set (pkt_ref p # map pkt_ref (m_packets s))"
    using body_popped[OF step(1)] by (simp only: set_append) blast
  moreover have "set (popped (new_calls s1 s')) \<subseteq> set (pkt_ref p # map pkt_ref (m_packets s))"
    using step(3) body_popped(2)[OF step(1)] by blast
  ultimately show ?case
    unfolding n popped_append by (simp only: set_append held.simps append_Cons append_Nil) blast
qed

lemma count_list_distinct: "distinct xs \<Longrightarrow> x \<in> set xs \<Longrightarrow> count_list xs x = 1"
  by (induction xs) (auto simp: count_list_0_iff)

lemma disposed_xor:
  fixes a b :: nat
  assumes "a + b = 1"
  shows "(b = 1 \<and> a = 0) \<or> (b = 0 \<and> a = 1)"
  using assms by auto

text \<open>
  Claim C1, as the code has it. Every pop that hands a packet to \<open>onGetData\<close> (called
  from \<open>preload\<close> or from \<open>updateTexture\<close>) is followed, before the next pop and before
  the call returns, by exactly one disposal of that packet object: it is freed or it is
  prepended to the source, never both and never neither, whatever lengths and flags the
  decode calls report. Counted per packet object over the whole call, the times it is in
  the source afterwards plus the times it was freed equal the times it was in the source
  before. So, when the source holds distinct packet objects, every object popped during
  the call is at return either freed exactly once and gone from the source, or back in
  the source exactly once and not freed.
\<close>

theorem onGetData_disposes_each_popped_packet_once:
  "disposed_once (filter is_ownership (new_calls s (snd (onGetData lib s))))
   \<and> count_list (map pkt_ref (m_packets (snd (onGetData lib s)))) x
       + count_list (freed (new_calls s (snd (onGetData lib s)))) x
     = count_list (map pkt_ref (m_packets s)) x
   \<and> (distinct (map pkt_ref (m_packets s)) \<longrightarrow>
        (\<forall>y \<in> set (popped (new_calls s (snd (onGetData lib s)))).
           (count_list (freed (new_calls s (snd (onGetData lib s)))) y = 1
              \<and> count_list (map pkt_ref (m_packets (snd (onGetData lib s)))) y = 0)
         \<or> (count_list (freed (new_calls s (snd (onGetData lib s)))) y = 0
              \<and> count_list (map pkt_ref (m_packets (snd (onGetData lib s)))) y = 1)))
   \<and> disposed_once (filter is_ownership (new_calls s (preload lib s)))
   \<and> disposed_once (filter is_ownership (new_calls s (updateTexture lib s)))"
proof -
  obtain r s' where rs: "onGetData lib s = (r, s')" by (cases "onGetData lib s")
  obtain packet s1 where f:
    "onGetData_loop lib packet False True s1 = onGetData lib s"
    "new_calls s (snd (onGetData lib s)) = Pop packet # new_calls s1 (snd (onGetData lib s))"
    "held packet False True @ map pkt_ref (m_packets s1) = map pkt_ref (m_packets s)"
    by (rule onGetData_run)
  note l = f(1)[unfolded rs]
  have n: "new_calls s s' = Pop packet # new_calls s1 s'"
    using f(2) rs by simp
  have pair: "disposed_once (filter is_ownership (new_calls s s'))"
    using loop_pairing[OF l] unfolding n by (cases packet) auto
  have cnt: "count_list (map pkt_ref (m_packets s')) y + count_list (freed (new_calls s s')) y
     = count_list (map pkt_ref (m_packets s)) y" for y
    using loop_count[OF l, of y] f(3) unfolding n by (cases packet) auto
  have "set (popped (new_calls s1 s')) \<subseteq> set (map pkt_ref (m_packets s))"
    using loop_popped[OF l] unfolding f(3) .
  moreover have "set (popped [Pop packet]) \<subseteq> set (map pkt_ref (m_packets s))"
    unfolding f(3)[symmetric] by (cases packet) simp_all
  ultimately have pop: "set (popped (new_calls s s')) \<subseteq> set (map pkt_ref (m_packets s))"
    unfolding n using popped_append[of "[Pop packet]" "new_calls s1 s'"]
    by (simp only: append_Cons append_Nil set_append) blast
  have fin: "(count_list (freed (new_calls s s')) y = 1
              \<and> count_list (map pkt_ref (m_packets s')) y = 0)
         \<or> (count_list (freed (new_calls s s')) y = 0
              \<and> count_list (map pkt_ref (m_packets s')) y = 1)"
    if d: "distinct (map pkt_ref (m_packets s))" and y: "y \<in> set (popped (new_calls s s'))" for y
  proof -
    from y pop have "y \<in> set (map pkt_ref (m_packets s))" by blast
    with d have "count_list (map pkt_ref (m_packets s)) y = 1"
      by (rule count_list_distinct)
    with cnt[of y] show ?thesis by (intro disposed_xor) simp
  qed
  show ?thesis
    using pair cnt[of x] fin rs
    by (simp add: preload_def updateTexture_def new_calls_def)
qed

theorem onGetData_disposes_each_popped_packet_once_witness:
  "distinct (map pkt_ref (m_packets (stream_of [packet_of 1 8] Stopped 0)))
   \<and> new_calls (stream_of [packet_of 1 8] Stopped 0)
         (snd (onGetData (fixed_codec 4 0) (stream_of [packet_of 1 8] Stopped 0)))
      = [Pop (Some (packet_of 1 8)), Decode (packet_of 1 8) 4 0,
         Prepend (advance_cursor (packet_of 1 8) 4),
         Pop (Some (advance_cursor (packet_of 1 8) 4)),
         Decode (advance_cursor (packet_of 1 8) 4) 4 0,
         Free (advance_cursor (packet_of 1 8) 4), Pop None]
   \<and> disposed_once (filter is_ownership
        (new_calls (stream_of [packet_of 1 8] Stopped 0)
           (snd (onGetData (fixed_codec 4 0) (stream_of [packet_of 1 8] Stopped 0)))))
   \<and> count_list (freed
        (new_calls (stream_of [packet_of 1 8] Stopped 0)
           (snd (onGetData (fixed_codec 4 0) (stream_of [packet_of 1 8] Stopped 0))))) 1 = 1
   \<and> m_packets (snd (onGetData (fixed_codec 4 0) (stream_of [packet_of 1 8] Stopped 0))) = []"
  using onGetData_disposes_each_popped_packet_once
    [of "stream_of [packet_of 1 8] Stopped 0" "fixed_codec 4 0" 1]
  by (simp add: run_defs)

text \<open>
  Claim C1 as stated (each packet popped during the call has, by its return, been freed
  exactly once or requeued exactly once, never both) fails: a packet requeued after a
  partial consumption without a picture is popped again by the same call. A packet of
  eight bytes decoded four at a time is prepended once and freed once in one call; one of
  twelve bytes is prepended twice and freed once.
\<close>

theorem packet_requeued_and_freed_in_one_call:
  "popped (new_calls (stream_of [packet_of 1 8] Stopped 0)
      (snd (onGetData (fixed_codec 4 0) (stream_of [packet_of 1 8] Stopped 0)))) = [1, 1]
   \<and> requeued (new_calls (stream_of [packet_of 1 8] Stopped 0)
      (snd (onGetData (fixed_codec 4 0) (stream_of [packet_of 1 8] Stopped 0)))) = [1]
   \<and> freed (new_calls (stream_of [packet_of 1 8] Stopped 0)
      (snd (onGetData (fixed_codec 4 0) (stream_of [packet_of 1 8] Stopped 0)))) = [1]
   \<and> requeued (new_calls (stream_of [packet_of 1 12] Stopped 0)
      (snd (onGetData (fixed_codec 4 0) (stream_of [packet_of 1 12] Stopped 0)))) = [1, 1]
   \<and> freed (new_calls (stream_of [packet_of 1 12] Stopped 0)
      (snd (onGetData (fixed_codec 4 0) (stream_of [packet_of 1 12] Stopped 0)))) = [1]"
  by (simp add: run_defs)

section \<open>Decode failures\<close>

lemma loop_first_call:
  assumes dec: "avcodec_decode_video2 lib (m_codecCtx s) p = (d, g, f, c)"
    and run: "onGetData_loop lib (Some p) False True s = (r, s')"
  shows "take 1 (new_calls s s') = [Decode p d g]"
proof -
  obtain packet' gotFrame' goOn' s1
    where b: "onGetData_body lib p s = (packet', gotFrame', goOn', s1)"
    by (metis prod_cases4)
  from run loop_step[OF b] have l: "onGetData_loop lib packet' gotFrame' goOn' s1 = (r, s')"
    by simp
  from new_calls_trans[OF body_result(1)[OF dec b] loop_prefix[OF l]] show ?thesis
    by simp
qed

lemma decodePacket_failure:
  assumes "avcodec_decode_video2 lib (m_codecCtx s) p = (d, g, f, c)" and "d \<le> 0"
  shows "decodePacket lib p s =
    (False, g \<noteq> 0, False, p,
     s\<lparr>m_codecCtx := c, m_rawVideoFrame := f, calls := calls s @ [Decode p d g]\<rparr>)"
  using assms by (simp add: decodePacket_def)

lemma body_failure:
  assumes "avcodec_decode_video2 lib (m_codecCtx s) p = (d, g, f, c)" and "d \<le> 0"
  shows "onGetData_body lib p s =
    (Some p, g \<noteq> 0, False,
     if g \<noteq> 0
     then s\<lparr>m_codecCtx := c, m_rawVideoFrame := f, m_rgbaVideoBuffer := sws_scale lib f,
            m_texture := sws_scale lib f,
            calls := calls s @ [Decode p d g, Rescale, TextureUpdate, Free p]\<rparr>
     else s\<lparr>m_codecCtx := c, m_rawVideoFrame := f, calls := calls s @ [Decode p d g, Free p]\<rparr>)"
  using assms
  by (simp add: onGetData_body_def decodePacket_failure[OF assms] rescale_def texture_update_def
      av_free_packet_def)

text \<open>
  Claim C5, as the code has it. When the decode call returns a length that is not
  positive for the packet the loop has in hand, that iteration is the last one: the
  packet is freed and not requeued, \<open>m_lastDecodedTimestamp\<close> keeps its value and the call
  returns \<open>false\<close>. \<open>gotFrame\<close> is taken from the got-picture flag whatever the length,
  so the frame is rescaled and uploaded in that iteration exactly when the flag was set;
  with the flag clear no frame is produced.
\<close>

theorem decode_failure_ends_attempt:
  assumes dec: "avcodec_decode_video2 lib (m_codecCtx s) p = (d, g, f, c)" and fail: "d \<le> 0"
  shows "fst (onGetData_loop lib (Some p) False True s) = False
    \<and> new_calls s (snd (onGetData_loop lib (Some p) False True s))
        = Decode p d g # (if g \<noteq> 0 then [Rescale, TextureUpdate] else []) @ [Free p]
    \<and> m_packets (snd (onGetData_loop lib (Some p) False True s)) = m_packets s
    \<and> m_lastDecodedTimestamp (snd (onGetData_loop lib (Some p) False True s))
        = m_lastDecodedTimestamp s
    \<and> m_texture (snd (onGetData_loop lib (Some p) False True s))
        = (if g \<noteq> 0 then sws_scale lib f else m_texture s)
    \<and> (m_packets s = p # ps \<longrightarrow>
         fst (onGetData lib s) = False
       \<and> m_packets (snd (onGetData lib s)) = ps
       \<and> new_calls s (snd (onGetData lib s))
           = Pop (Some p) # Decode p d g # (if g \<noteq> 0 then [Rescale, TextureUpdate] else [])
               @ [Free p])"
proof -
  have loop: "onGetData_loop lib (Some p) False True s' =
      (False,
       if g \<noteq> 0
       then s'\<lparr>m_codecCtx := c, m_rawVideoFrame := f, m_rgbaVideoBuffer := sws_scale lib f,
              m_texture := sws_scale lib f,
              calls := calls s' @ [Decode p d g, Rescale, TextureUpdate, Free p]\<rparr>
       else s'\<lparr>m_codecCtx := c, m_rawVideoFrame := f,
              calls := calls s' @ [Decode p d g, Free p]\<rparr>)"
    if "m_codecCtx s' = m_codecCtx s" for s' :: "'a VideoStream"
  proof -
    from dec that have dec': "avcodec_decode_video2 lib (m_codecCtx s') p = (d, g, f, c)"
      by simp
    show ?thesis
      by (simp add: loop_step[OF body_failure[OF dec' fail]] loop_stop)
  qed
  have a: "m_packets s = p # ps \<Longrightarrow> onGetData lib s =
     onGetData_loop lib (Some p) False True (s\<lparr>m_packets := ps, calls := calls s @ [Pop (Some p)]\<rparr>)"
    by (simp add: onGetData_def popEncodedData_def)
  show ?thesis
    using loop[of s] a loop[of "s\<lparr>m_packets := ps, calls := calls s @ [Pop (Some p)]\<rparr>"]
    by (simp add: new_calls_def)
qed

theorem decode_failure_ends_attempt_witness:
  "fst (onGetData (fixed_codec 0 0) (stream_of [packet_of 1 8, packet_of 2 8] Playing 0)) = False
   \<and> m_packets (snd (onGetData (fixed_codec 0 0) (stream_of [packet_of 1 8, packet_of 2 8] Playing 0)))
       = [packet_of 2 8]
   \<and> new_calls (stream_of [packet_of 1 8, packet_of 2 8] Playing 0)
        (snd (onGetData (fixed_codec 0 0) (stream_of [packet_of 1 8, packet_of 2 8] Playing 0)))
      = [Pop (Some (packet_of 1 8)), Decode (packet_of 1 8) 0 0, Free (packet_of 1 8)]"
  using decode_failure_ends_attempt[of "fixed_codec 0 0" "stream_of [packet_of 1 8, packet_of 2 8] Playing 0"
      "packet_of 1 8" 0 0 "\<lparr>best_effort_timestamp = 0, frame_data = 1\<rparr>" 1 "[packet_of 2 8]"]
  by (simp add: fixed_codec_def stream_of_def)

text \<open>
  Claim C5 as stated ("no frame produced in that iteration") fails when the codec
  returns a negative length and sets the got-picture flag: the texture is updated and
  the call still returns \<open>false\<close>.
\<close>

theorem failed_decode_with_picture_presents_frame:
  "fst (avcodec_decode_video2 (fixed_codec (- 1) 1) 0 (packet_of 1 8)) = - 1
   \<and> fst (onGetData (fixed_codec (- 1) 1) (stream_of [packet_of 1 8] Playing 0)) = False
   \<and> new_calls (stream_of [packet_of 1 8] Playing 0)
        (snd (onGetData (fixed_codec (- 1) 1) (stream_of [packet_of 1 8] Playing 0)))
      = [Pop (Some (packet_of 1 8)), Decode (packet_of 1 8) (- 1) 1, Rescale, TextureUpdate,
         Free (packet_of 1 8)]
   \<and> m_texture (stream_of [packet_of 1 8] Playing 0) = 0
   \<and> m_texture (snd (onGetData (fixed_codec (- 1) 1) (stream_of [packet_of 1 8] Playing 0))) = 1"
  by (simp add: run_defs)

section \<open>Partial consumption\<close>

text \<open>
  Claim C2. When the decode call succeeds (a positive length) and consumes strictly less
  than the packet's remaining size, \<open>decodePacket\<close> sets \<open>needsMoreDecoding\<close>, adds the
  length to the packet's data pointer and takes it off its size; the loop body of
  \<open>onGetData\<close> then prepends that same packet object to the source and does not free it,
  so that it is the next packet popped: by the loop itself when no picture came out, by
  the next call when one did.
\<close>

theorem partial_consumption_requeues_at_front:
  assumes dec: "avcodec_decode_video2 lib (m_codecCtx s) p = (d, g, f, c)"
    and pos: "0 < d" and part: "d < pkt_size p"
  shows "(case decodePacket lib p s of
            (ok, gotFrame, needsMoreDecoding, p', s1) \<Rightarrow>
              ok \<and> needsMoreDecoding \<and> p' = advance_cursor p d)
    \<and> pkt_ref (advance_cursor p d) = pkt_ref p
    \<and> pkt_data (advance_cursor p d) = pkt_data p + d
    \<and> pkt_size (advance_cursor p d) = pkt_size p - d
    \<and> (case onGetData_body lib p s of
          (next, gotFrame, goOn, s') \<Rightarrow>
            freed (new_calls s s') = []
          \<and> (if g \<noteq> 0
              then new_calls s s' = [Decode p d g, Rescale, TextureUpdate, Prepend (advance_cursor p d)]
                 \<and> m_packets s' = advance_cursor p d # m_packets s
                 \<and> fst (popEncodedData s') = Some (advance_cursor p d)
              else new_calls s s' = [Decode p d g, Prepend (advance_cursor p d),
                                     Pop (Some (advance_cursor p d))]
                 \<and> next = Some (advance_cursor p d)
                 \<and> m_packets s' = m_packets s))
    \<and> (m_packets s = p # ps \<and> g \<noteq> 0 \<longrightarrow>
          fst (onGetData lib s)
        \<and> m_packets (snd (onGetData lib s)) = advance_cursor p d # ps
        \<and> fst (popEncodedData (snd (onGetData lib s))) = Some (advance_cursor p d))"
proof -
  have a: "case decodePacket lib p s of
            (ok, gotFrame, needsMoreDecoding, p', s1) \<Rightarrow>
              ok \<and> needsMoreDecoding \<and> p' = advance_cursor p d"
    using assms by (simp add: decodePacket_def Let_def)
  have b: "pkt_ref (advance_cursor p d) = pkt_ref p
    \<and> pkt_data (advance_cursor p d) = pkt_data p + d
    \<and> pkt_size (advance_cursor p d) = pkt_size p - d"
    by (simp add: advance_cursor_def)
  have body: "onGetData_body lib p s' =
     (if g \<noteq> 0
      then (Some (advance_cursor p d), True, True,
            s'\<lparr>m_packets := advance_cursor p d # m_packets s', m_codecCtx := c,
               m_rawVideoFrame := f, m_rgbaVideoBuffer := sws_scale lib f,
               m_texture := sws_scale lib f,
               m_lastDecodedTimestamp :=
                 milliseconds (q2d_product lib
                   (1000 * (best_effort_timestamp f
                      - (if start_time (m_stream s') \<noteq> AV_NOPTS_VALUE
                         then start_time (m_stream s') else 0)))
                   (time_base (m_stream s'))),
               calls := calls s' @ [Decode p d g, Rescale, TextureUpdate,
                                    Prepend (advance_cursor p d)]\<rparr>)
      else (Some (advance_cursor p d), False, True,
            s'\<lparr>m_codecCtx := c, m_rawVideoFrame := f,
               calls := calls s' @ [Decode p d g, Prepend (advance_cursor p d),
                                    Pop (Some (advance_cursor p d))]\<rparr>))"
    if "m_codecCtx s' = m_codecCtx s" for s' :: "'a VideoStream"
    using dec pos part that
    by (simp add: onGetData_body_def decodePacket_def rescale_def texture_update_def
        prependEncodedData_def popEncodedData_def Let_def)
  have c: "case onGetData_body lib p s of
          (next, gotFrame, goOn, s') \<Rightarrow>
            freed (new_calls s s') = []
          \<and> (if g \<noteq> 0
              then new_calls s s' = [Decode p d g, Rescale, TextureUpdate, Prepend (advance_cursor p d)]
                 \<and> m_packets s' = advance_cursor p d # m_packets s
                 \<and> fst (popEncodedData s') = Some (advance_cursor p d)
              else new_calls s s' = [Decode p d g, Prepend (advance_cursor p d),
                                     Pop (Some (advance_cursor p d))]
                 \<and> next = Some (advance_cursor p d)
                 \<and> m_packets s' = m_packets s)"
    by (simp add: body[of s] new_calls_def popEncodedData_def)
  have d: "fst (onGetData lib s)
        \<and> m_packets (snd (onGetData lib s)) = advance_cursor p d # ps
        \<and> fst (popEncodedData (snd (onGetData lib s))) = Some (advance_cursor p d)"
    if "m_packets s = p # ps" "g \<noteq> 0"
  proof -
    let ?s1 = "s\<lparr>m_packets := ps, calls := calls s @ [Pop (Some p)]\<rparr>"
    have "onGetData lib s = onGetData_loop lib (Some p) False True ?s1"
      using that by (simp add: onGetData_def popEncodedData_def)
    also have "\<dots> = onGetData_loop lib (Some (advance_cursor p d)) True True
        (snd (snd (snd (onGetData_body lib p ?s1))))"
      using that by (subst loop_step[of lib p ?s1 "Some (advance_cursor p d)" True True
            "snd (snd (snd (onGetData_body lib p ?s1)))"]) (simp_all add: body[of ?s1])
    finally show ?thesis
      using that by (simp add: loop_stop body[of ?s1] popEncodedData_def)
  qed
  from a b c d show ?thesis by blast
qed

theorem partial_consumption_requeues_at_front_witness:
  "m_packets (snd (onGetData (fixed_codec 4 1) (stream_of [packet_of 1 8, packet_of 2 8] Playing 0)))
     = [\<lparr>pkt_ref = 1, pkt_data = 4, pkt_size = 4\<rparr>, packet_of 2 8]
   \<and> fst (popEncodedData
        (snd (onGetData (fixed_codec 4 1) (stream_of [packet_of 1 8, packet_of 2 8] Playing 0))))
     = Some \<lparr>pkt_ref = 1, pkt_data = 4, pkt_size = 4\<rparr>"
  using partial_consumption_requeues_at_front
    [of "fixed_codec 4 1" "stream_of [packet_of 1 8, packet_of 2 8] Playing 0" "packet_of 1 8" 4 1
        "\<lparr>best_effort_timestamp = 0, frame_data = 1\<rparr>" 1 "[packet_of 2 8]"]
  by (simp add: fixed_codec_def stream_of_def packet_of_def advance_cursor_def)

section \<open>Failure of decodePacket\<close>

text \<open>
  Claim C10. \<open>decodePacket\<close> returns \<open>false\<close> exactly when the decode call reports a
  length that is not positive. On that path the packet's data pointer and size are left
  as they were, \<open>needsMoreDecoding\<close> is \<open>false\<close> and \<open>m_lastDecodedTimestamp\<close> is
  unchanged: the stream differs from the one before the call only by what the decode
  call itself wrote (the codec state and the output frame), beside the record of the
  call.
\<close>

theorem decodePacket_failure_leaves_packet_and_timestamp:
  assumes dec: "avcodec_decode_video2 lib (m_codecCtx s) packet = (d, g, f, c)"
  shows "(fst (decodePacket lib packet s) = False) = (d \<le> 0)
    \<and> (d \<le> 0 \<longrightarrow>
         decodePacket lib packet s =
           (False, g \<noteq> 0, False, packet,
            s\<lparr>m_codecCtx := c, m_rawVideoFrame := f, calls := calls s @ [Decode packet d g]\<rparr>)
       \<and> m_lastDecodedTimestamp (snd (snd (snd (snd (decodePacket lib packet s)))))
           = m_lastDecodedTimestamp s
       \<and> m_packets (snd (snd (snd (snd (decodePacket lib packet s))))) = m_packets s
       \<and> m_texture (snd (snd (snd (snd (decodePacket lib packet s))))) = m_texture s
       \<and> m_rgbaVideoBuffer (snd (snd (snd (snd (decodePacket lib packet s)))))
           = m_rgbaVideoBuffer s)"
  using dec by (simp add: decodePacket_def Let_def)

theorem decodePacket_failure_leaves_packet_and_timestamp_witness:
  "decodePacket (fixed_codec (- 1) 0) (packet_of 1 8) (stream_of [] Playing 0) =
     (False, False, False, packet_of 1 8,
      (stream_of [] Playing 0)
        \<lparr>m_codecCtx := 1, m_rawVideoFrame := \<lparr>best_effort_timestamp = 0, frame_data = 1\<rparr>,
         calls := [Decode (packet_of 1 8) (- 1) 0]\<rparr>)"
  using decodePacket_failure_leaves_packet_and_timestamp
    [of "fixed_codec (- 1) 0" "stream_of [] Playing 0" "packet_of 1 8" "- 1" 0
        "\<lparr>best_effort_timestamp = 0, frame_data = 1\<rparr>" 1]
  by (simp add: fixed_codec_def stream_of_def)

section \<open>Synchronisation\<close>

text \<open>
  Claim C4. \<open>updateTexture\<close> calls \<open>onGetData\<close>, and so makes any call at all to the
  packet source or the codec, if and only if the synchronisation gap
  \<open>m_lastDecodedTimestamp - m_timer.getOffset()\<close> is strictly negative; with a gap of
  zero or more the stream is left untouched. \<open>preload\<close> calls \<open>onGetData\<close> whatever the
  gap. A call to \<open>onGetData\<close> always starts by popping the source and, when a packet
  comes out, submits it to the decoder.
\<close>

theorem updateTexture_decodes_iff_gap_negative:
  "(new_calls s (updateTexture lib s) \<noteq> []) = (getSynchronizationGap s < 0)
   \<and> getSynchronizationGap s = m_lastDecodedTimestamp s - offset (m_timer s)
   \<and> updateTexture lib s = (if getSynchronizationGap s < 0 then snd (onGetData lib s) else s)
   \<and> preload lib s = snd (onGetData lib s)
   \<and> new_calls s (preload lib s) \<noteq> []
   \<and> take 1 (new_calls s (snd (onGetData lib s)))
       = [Pop (case m_packets s of [] \<Rightarrow> None | p # ps \<Rightarrow> Some p)]
   \<and> take 1 (drop 1 (new_calls s (snd (onGetData lib s))))
       = (case m_packets s of [] \<Rightarrow> []
          | p # ps \<Rightarrow> (case avcodec_decode_video2 lib (m_codecCtx s) p of
                        (d, g, f, c) \<Rightarrow> [Decode p d g]))"
proof -
  obtain packet s1 where f:
    "calls s1 = calls s @ [Pop packet]"
    "new_calls s (snd (onGetData lib s)) = Pop packet # new_calls s1 (snd (onGetData lib s))"
    by (rule onGetData_run)
  have first: "take 1 (new_calls s (snd (onGetData lib s)))
       = [Pop (case m_packets s of [] \<Rightarrow> None | p # ps \<Rightarrow> Some p)]
    \<and> take 1 (drop 1 (new_calls s (snd (onGetData lib s))))
       = (case m_packets s of [] \<Rightarrow> []
          | p # ps \<Rightarrow> (case avcodec_decode_video2 lib (m_codecCtx s) p of
                        (d, g, f, c) \<Rightarrow> [Decode p d g]))"
  proof (cases rule: onGetData_cases[where s=s and lib=lib])
    case empty
    then show ?thesis by (simp add: new_calls_def)
  next
    case (packet p ps)
    let ?s1 = "s\<lparr>m_packets := ps, calls := calls s @ [Pop (Some p)]\<rparr>"
    obtain d g f c where dec: "avcodec_decode_video2 lib (m_codecCtx ?s1) p = (d, g, f, c)"
      by (metis prod_cases4)
    obtain r s' where rs: "onGetData_loop lib (Some p) False True ?s1 = (r, s')"
      by (cases "onGetData_loop lib (Some p) False True ?s1")
    have c: "calls ?s1 = calls s @ [Pop (Some p)]" by simp
    from new_calls_trans[OF c loop_prefix[OF rs]] loop_first_call[OF dec rs] dec packet rs
    show ?thesis by simp
  qed
  have "new_calls s (snd (onGetData lib s)) \<noteq> []"
    using f(2) by simp
  with first show ?thesis
    by (simp add: updateTexture_def preload_def getSynchronizationGap_def new_calls_def)
qed

theorem updateTexture_decodes_iff_gap_negative_witness:
  "getSynchronizationGap (stream_of [packet_of 1 4] Playing 0) = 0
   \<and> updateTexture (fixed_codec 4 1) (stream_of [packet_of 1 4] Playing 0)
       = stream_of [packet_of 1 4] Playing 0
   \<and> getSynchronizationGap (stream_of [packet_of 1 4] Playing 45000) = - 45000
   \<and> new_calls (stream_of [packet_of 1 4] Playing 45000)
        (updateTexture (fixed_codec 4 1) (stream_of [packet_of 1 4] Playing 45000))
      = [Pop (Some (packet_of 1 4)), Decode (packet_of 1 4) 4 1, Rescale, TextureUpdate,
         Free (packet_of 1 4)]"
  using updateTexture_decodes_iff_gap_negative
    [of "stream_of [packet_of 1 4] Playing 0" "fixed_codec 4 1"]
  by (simp add: run_defs)

section \<open>The decoded timestamp\<close>

text \<open>
  Claim C8. \<open>m_lastDecodedTimestamp\<close> changes only when a decode call succeeds and
  produces a picture: a call to \<open>onGetData\<close>, through \<open>preload\<close> or \<open>updateTexture\<close>,
  none of whose decode calls returned a positive length together with a picture leaves
  it as it was. In particular a \<open>preload\<close> on an exhausted source, where the pop returns
  nothing, does not touch it; nor do the lifecycle hooks.
\<close>

theorem timestamp_changes_only_with_decoded_picture:
  "(\<not> decoded_picture (new_calls s (snd (onGetData lib s))) \<longrightarrow>
      m_lastDecodedTimestamp (snd (onGetData lib s)) = m_lastDecodedTimestamp s)
   \<and> (\<not> decoded_picture (new_calls s (preload lib s)) \<longrightarrow>
      m_lastDecodedTimestamp (preload lib s) = m_lastDecodedTimestamp s)
   \<and> (\<not> decoded_picture (new_calls s (updateTexture lib s)) \<longrightarrow>
      m_lastDecodedTimestamp (updateTexture lib s) = m_lastDecodedTimestamp s)
   \<and> (m_packets s = [] \<longrightarrow>
      new_calls s (preload lib s) = [Pop None]
      \<and> m_lastDecodedTimestamp (preload lib s) = m_lastDecodedTimestamp s)
   \<and> m_lastDecodedTimestamp (didStop lib timer previousStatus s) = m_lastDecodedTimestamp s
   \<and> m_lastDecodedTimestamp (didPlay timer previousStatus s) = m_lastDecodedTimestamp s
   \<and> m_lastDecodedTimestamp (didPause timer previousStatus s) = m_lastDecodedTimestamp s"
proof -
  obtain r s' where rs: "onGetData lib s = (r, s')" by (cases "onGetData lib s")
  obtain packet s1 where f:
    "onGetData_loop lib packet False True s1 = onGetData lib s"
    "new_calls s (snd (onGetData lib s)) = Pop packet # new_calls s1 (snd (onGetData lib s))"
    "m_lastDecodedTimestamp s1 = m_lastDecodedTimestamp s"
    by (rule onGetData_run)
  have a: "\<not> decoded_picture (new_calls s s') \<longrightarrow>
      m_lastDecodedTimestamp s' = m_lastDecodedTimestamp s"
    using loop_timestamp[OF f(1)[unfolded rs]] f(2,3) rs by simp
  have b: "m_packets s = [] \<Longrightarrow> new_calls s s' = [Pop None]
      \<and> m_lastDecodedTimestamp s' = m_lastDecodedTimestamp s"
    using rs by (cases rule: onGetData_cases[where s=s and lib=lib]) (auto simp: new_calls_def)
  show ?thesis
    using a b rs
    by (simp add: preload_def updateTexture_def didStop_def didPlay_def didPause_def)
qed

theorem timestamp_changes_only_with_decoded_picture_witness:
  "\<not> decoded_picture (new_calls (stream_of [packet_of 1 4, packet_of 2 4] Playing 7)
        (preload (fixed_codec 4 0) (stream_of [packet_of 1 4, packet_of 2 4] Playing 7)))
   \<and> m_lastDecodedTimestamp
        (preload (fixed_codec 4 0) (stream_of [packet_of 1 4, packet_of 2 4] Playing 7)) = 0
   \<and> m_lastDecodedTimestamp (preload (fixed_codec 4 0) (stream_of [] Playing 7)) = 0
   \<and> m_lastDecodedTimestamp
        (preload (fixed_codec 4 1) ((stream_of [packet_of 1 4] Playing 7)\<lparr>m_codecCtx := 2\<rparr>))
      = 80000"
  using timestamp_changes_only_with_decoded_picture
    [of "stream_of [packet_of 1 4, packet_of 2 4] Playing 7" "fixed_codec 4 0"]
  by (simp add: run_defs AV_NOPTS_VALUE_def)

section \<open>The value returned by onGetData\<close>

text \<open>
  Claim C9. \<open>onGetData\<close> returns \<open>false\<close> if and only if it called \<open>decodePacket\<close> and
  the last of these calls failed (its decode call returned a length that is not
  positive). When the first pop returns nothing, or when every decode call succeeded
  without a picture until the source was exhausted, it returns \<open>true\<close> although no frame
  was produced: the value is the same as after a frame.
\<close>

theorem onGetData_false_iff_last_decode_failed:
  "fst (onGetData lib s)
     = (case last_decode (new_calls s (snd (onGetData lib s))) of
          None \<Rightarrow> True | Some d \<Rightarrow> 0 < d)
   \<and> (m_packets s = [] \<longrightarrow> onGetData lib s = (True, s\<lparr>calls := calls s @ [Pop None]\<rparr>))
   \<and> (\<not> decode_failed (new_calls s (snd (onGetData lib s)))
        \<and> \<not> got_picture (new_calls s (snd (onGetData lib s))) \<longrightarrow>
          fst (onGetData lib s)
        \<and> m_packets (snd (onGetData lib s)) = []
        \<and> m_texture (snd (onGetData lib s)) = m_texture s
        \<and> TextureUpdate \<notin> set (new_calls s (snd (onGetData lib s))))"
proof -
  obtain r s' where rs: "onGetData lib s = (r, s')" by (cases "onGetData lib s")
  obtain packet s1 where f:
    "onGetData_loop lib packet False True s1 = onGetData lib s"
    "new_calls s (snd (onGetData lib s)) = Pop packet # new_calls s1 (snd (onGetData lib s))"
    "packet = None \<longrightarrow> m_packets s1 = []"
    "m_texture s1 = m_texture s"
    by (rule onGetData_run)
  note l = f(1)[unfolded rs]
  have n: "new_calls s s' = Pop packet # new_calls s1 s'"
    using f(2) rs by simp
  have a: "r = (case last_decode (new_calls s s') of None \<Rightarrow> True | Some d \<Rightarrow> 0 < d)"
    using loop_return[OF l] unfolding n by (simp split: option.splits)
  have b: "m_packets s = [] \<Longrightarrow> onGetData lib s = (True, s\<lparr>calls := calls s @ [Pop None]\<rparr>)"
    by (cases rule: onGetData_cases[where s=s and lib=lib]) auto
  have c: "r \<and> m_packets s' = [] \<and> m_texture s' = m_texture s
        \<and> TextureUpdate \<notin> set (new_calls s s')"
    if nf: "\<not> decode_failed (new_calls s s')" and np: "\<not> got_picture (new_calls s s')"
  proof -
    from a last_decode_ok[OF nf] have r by simp
    moreover from np have np1: "\<not> got_picture (new_calls s1 s')" unfolding n by simp
    moreover from loop_exhausted[OF l] f(3) \<open>r\<close> np1 have "m_packets s' = []" by simp
    moreover from loop_texture[OF l] np1 f(4)
    have "m_texture s' = m_texture s \<and> TextureUpdate \<notin> set (new_calls s1 s')" by simp
    ultimately show ?thesis unfolding n by simp
  qed
  have A: "fst (onGetData lib s)
     = (case last_decode (new_calls s (snd (onGetData lib s))) of
          None \<Rightarrow> True | Some d \<Rightarrow> 0 < d)"
    using a rs by simp
  have C: "\<not> decode_failed (new_calls s (snd (onGetData lib s)))
        \<and> \<not> got_picture (new_calls s (snd (onGetData lib s))) \<longrightarrow>
          fst (onGetData lib s)
        \<and> m_packets (snd (onGetData lib s)) = []
        \<and> m_texture (snd (onGetData lib s)) = m_texture s
        \<and> TextureUpdate \<notin> set (new_calls s (snd (onGetData lib s)))"
    using c rs by simp
  from A b C show ?thesis by blast
qed

theorem onGetData_false_iff_last_decode_failed_witness:
  "onGetData (fixed_codec 4 1) (stream_of [] Playing 0)
     = (True, (stream_of [] Playing 0)\<lparr>calls := [Pop None]\<rparr>)
   \<and> fst (onGetData (fixed_codec 4 0) (stream_of [packet_of 1 4] Playing 0))
   \<and> m_texture (snd (onGetData (fixed_codec 4 0) (stream_of [packet_of 1 4] Playing 0))) = 0
   \<and> fst (onGetData (fixed_codec 4 1) (stream_of [packet_of 1 4] Playing 0))
   \<and> m_texture (snd (onGetData (fixed_codec 4 1) (stream_of [packet_of 1 4] Playing 0))) = 1
   \<and> \<not> fst (onGetData (fixed_codec 0 0) (stream_of [packet_of 1 4] Playing 0))"
  using onGetData_false_iff_last_decode_failed[of "fixed_codec 4 1" "stream_of [] Playing 0"]
  by (simp add: run_defs AV_NOPTS_VALUE_def)

section \<open>Lifecycle hooks\<close>

text \<open>
  Claim C3, as the code has it. \<open>willPlay\<close> is handed the timer and no previous status,
  and calls \<open>preload\<close> on every transition into Playing, from Paused as from Stopped: it
  always pops the packet source and, when a packet comes out, submits it to the decoder.
  The hooks that do receive the previous status, \<open>didPlay\<close> and \<open>didPause\<close>, do nothing.
\<close>

theorem willPlay_always_preloads:
  "willPlay lib timer s = preload lib s
   \<and> preload lib s = snd (onGetData lib s)
   \<and> new_calls s (willPlay lib timer s) \<noteq> []
   \<and> take 1 (new_calls s (willPlay lib timer s))
       = [Pop (case m_packets s of [] \<Rightarrow> None | p # ps \<Rightarrow> Some p)]
   \<and> take 1 (drop 1 (new_calls s (willPlay lib timer s)))
       = (case m_packets s of [] \<Rightarrow> []
          | p # ps \<Rightarrow> (case avcodec_decode_video2 lib (m_codecCtx s) p of
                        (d, g, f, c) \<Rightarrow> [Decode p d g]))
   \<and> didPlay timer previousStatus s = s
   \<and> didPause timer previousStatus s = s"
proof -
  have first: "take 1 (new_calls s (snd (onGetData lib s)))
       = [Pop (case m_packets s of [] \<Rightarrow> None | p # ps \<Rightarrow> Some p)]
    \<and> take 1 (drop 1 (new_calls s (snd (onGetData lib s))))
       = (case m_packets s of [] \<Rightarrow> []
          | p # ps \<Rightarrow> (case avcodec_decode_video2 lib (m_codecCtx s) p of
                        (d, g, f, c) \<Rightarrow> [Decode p d g]))"
  proof (cases rule: onGetData_cases[where s=s and lib=lib])
    case empty
    then show ?thesis by (simp add: new_calls_def)
  next
    case (packet p ps)
    let ?s1 = "s\<lparr>m_packets := ps, calls := calls s @ [Pop (Some p)]\<rparr>"
    obtain d g f c where dec: "avcodec_decode_video2 lib (m_codecCtx ?s1) p = (d, g, f, c)"
      by (metis prod_cases4)
    obtain r s' where rs: "onGetData_loop lib (Some p) False True ?s1 = (r, s')"
      by (cases "onGetData_loop lib (Some p) False True ?s1")
    have c: "calls ?s1 = calls s @ [Pop (Some p)]" by simp
    from new_calls_trans[OF c loop_prefix[OF rs]] loop_first_call[OF dec rs] dec packet rs
    show ?thesis by simp
  qed
  then have "new_calls s (snd (onGetData lib s)) \<noteq> []"
    by auto
  with first show ?thesis
    by (simp add: willPlay_def preload_def didPlay_def didPause_def)
qed

theorem willPlay_always_preloads_witness:
  "new_calls (stream_of [packet_of 1 4] Stopped 0)
     (willPlay (fixed_codec 4 1) \<lparr>status = Stopped, offset = 0\<rparr> (stream_of [packet_of 1 4] Stopped 0))
   = [Pop (Some (packet_of 1 4)), Decode (packet_of 1 4) 4 1, Rescale, TextureUpdate,
      Free (packet_of 1 4)]"
  using willPlay_always_preloads
    [of "fixed_codec 4 1" "\<lparr>status = Stopped, offset = 0\<rparr>" "stream_of [packet_of 1 4] Stopped 0"]
  by (simp add: run_defs AV_NOPTS_VALUE_def)

text \<open>
  Claim C3 as stated ("from Paused the will-play hook does not attempt to decode or
  produce a frame") fails: with the timer still Paused when the hook runs, the head
  packet is decoded and its frame uploaded.
\<close>

theorem willPlay_from_Paused_decodes:
  "status (m_timer (stream_of [packet_of 1 4] Paused 0)) = Paused
   \<and> new_calls (stream_of [packet_of 1 4] Paused 0)
       (willPlay (fixed_codec 4 1) (m_timer (stream_of [packet_of 1 4] Paused 0))
          (stream_of [packet_of 1 4] Paused 0))
     = [Pop (Some (packet_of 1 4)), Decode (packet_of 1 4) 4 1, Rescale, TextureUpdate,
        Free (packet_of 1 4)]
   \<and> m_texture (stream_of [packet_of 1 4] Paused 0) = 0
   \<and> m_texture (willPlay (fixed_codec 4 1) (m_timer (stream_of [packet_of 1 4] Paused 0))
          (stream_of [packet_of 1 4] Paused 0)) = 1"
  by (simp add: run_defs AV_NOPTS_VALUE_def)

section \<open>The stored timestamp\<close>








section \<open>Stopping\<close>





end
